theory Spec2Isabelle
  imports Complex_Main
begin

section \<open>Data model\<close>

text \<open>
  A point is a tuple of real coordinates.  The floating-point numbers of the
  source are idealised as reals throughout.  A point cloud is the source's
  \<^verbatim>\<open>n x m\<close> array: \<open>rows\<close> holds the \<open>n\<close> points and
  \<open>ncols\<close> is \<open>m\<close> (an array with no rows still has a column count).
\<close>

type_synonym point = "real list"

record ndarray =
  ncols :: nat
  rows :: "point list"

definition well_shaped :: "ndarray \<Rightarrow> bool" where
  "well_shaped a \<longleftrightarrow> (\<forall>p \<in> set (rows a). length p = ncols a)"

text \<open>
  The exceptions.  The source raises a plain exception for an empty cloud and
  for an unknown method; the index raises on a query of the wrong
  dimensionality.  \<open>NonConvergenceError\<close> is the third error of the
  specification's taxonomy.
\<close>

datatype error =
  EmptyInputError
  | DimensionMismatchError
  | NonConvergenceError
  | MethodError

text \<open>The operations on indexes and distances, in the order they are carried out.\<close>

datatype event =
  Build_query_kd_tree
  | Build_reference_kd_tree
  | Query_query_kd_tree
  | Query_reference_kd_tree
  | Norm

text \<open>
  The value returned: the tuple \<open>(d, reference_indices, query_indices)\<close> of the
  alternating method, or the scalar of the exhaustive one.
\<close>

datatype result =
  Alternating real "nat list" "nat list"
  | Exhaustive real

section \<open>The nearest-neighbour index\<close>

definition euclid :: "point \<Rightarrow> point \<Rightarrow> real" where
  "euclid x y = sqrt (sum_list (map (\<lambda>(a, b). (a - b)\<^sup>2) (zip x y)))"

record kdtree =
  kd_data :: "point list"
  kd_m :: nat

text \<open>
  Modelled from the spec: the index class \<^verbatim>\<open>spatial.KDTree\<close> is imported by the
  source from a library and its code is not part of the repository.  Its behaviour
  is taken from the description of SpatialIndex: construction fails on an empty point set;
  a query of mismatched dimensionality is rejected before any traversal; otherwise
  the query returns the distance and the index of the stored point that minimises the
  Euclidean distance to the query point, exactly as a linear scan does, ties broken by
  lowest index.
\<close>

definition KDTree :: "ndarray \<Rightarrow> error + kdtree" where
  "KDTree a =
     (if rows a = [] then Inl EmptyInputError
      else Inr \<lparr>kd_data = rows a, kd_m = ncols a\<rparr>)"

fun scan :: "point \<Rightarrow> point list \<Rightarrow> nat \<Rightarrow> real \<times> nat \<Rightarrow> real \<times> nat" where
  "scan x [] i best = best"
| "scan x (p # ps) i (bd, bi) =
     scan x ps (Suc i) (if euclid x p < bd then (euclid x p, i) else (bd, bi))"

definition nearest :: "point list \<Rightarrow> point \<Rightarrow> real \<times> nat" where
  "nearest ps x = (case ps of p # ps' \<Rightarrow> scan x ps' 1 (euclid x p, 0))"

definition query :: "kdtree \<Rightarrow> point \<Rightarrow> error + real \<times> nat" where
  "query t x =
     (if length x \<noteq> kd_m t then Inl DimensionMismatchError
      else Inr (nearest (kd_data t) x))"

text \<open>The query of a whole array of points: one nearest neighbour per row.\<close>

fun query_all :: "kdtree \<Rightarrow> point list \<Rightarrow> error + (real \<times> nat) list" where
  "query_all t [] = Inr []"
| "query_all t (x # xs) =
     (case query t x of
        Inl e \<Rightarrow> Inl e
      | Inr r \<Rightarrow>
          (case query_all t xs of
             Inl e \<Rightarrow> Inl e
           | Inr rs \<Rightarrow> Inr (r # rs)))"

text \<open>
  The minimum of an array of distances.  The array has one entry per reference point,
  and the function has rejected an empty reference cloud before it gets here.
\<close>

fun amin :: "real list \<Rightarrow> real" where
  "amin (d # ds) = fold min ds d"

section \<open>find_shortest_distance\<close>

text \<open>
  The \<^verbatim>\<open>while 1\<close> loop of the alternating method.  The state is the pair of
  index lists and the log of operations; \<open>None\<close> is a loop that never ends.
  The indices read by \<open>!\<close> are the 0 of the start and answers of the two indexes,
  which are in range (lemmas \<open>trace_inv_step\<close> and \<open>nearest_index_less\<close> below).
\<close>

partial_function (option) alternate ::
  "ndarray \<Rightarrow> ndarray \<Rightarrow> kdtree \<Rightarrow> kdtree \<Rightarrow> nat list \<times> nat list \<times> event list
     \<Rightarrow> (event list \<times> (error + nat list \<times> nat list)) option" where
  "alternate reference_points query_points query_kd_tree reference_kd_tree st =
     (case st of (reference_indices, query_indices, evs) \<Rightarrow>
        (case query query_kd_tree (rows reference_points ! last reference_indices) of
           Inl e \<Rightarrow> Some (evs, Inl e)
         | Inr (query_d, query_index) \<Rightarrow>
             (case query reference_kd_tree
                     (rows query_points ! last (query_indices @ [query_index])) of
                Inl e \<Rightarrow> Some (evs @ [Query_query_kd_tree], Inl e)
              | Inr (reference_d, reference_index) \<Rightarrow>
                  if reference_index = last reference_indices
                  then Some (evs @ [Query_query_kd_tree, Query_reference_kd_tree],
                             Inr (reference_indices, query_indices @ [query_index]))
                  else alternate reference_points query_points query_kd_tree reference_kd_tree
                         (reference_indices @ [reference_index],
                          query_indices @ [query_index],
                          evs @ [Query_query_kd_tree, Query_reference_kd_tree]))))"

definition find_shortest_distance ::
  "ndarray \<Rightarrow> ndarray \<Rightarrow> string \<Rightarrow> (event list \<times> (error + result)) option" where
  "find_shortest_distance reference_points query_points method =
     (if length (rows reference_points) = 0 \<or> length (rows query_points) = 0
      then Some ([], Inl EmptyInputError)
      else
        (case KDTree query_points of
           Inl e \<Rightarrow> Some ([], Inl e)
         | Inr query_kd_tree \<Rightarrow>
             if method = ''new'' then
               (case KDTree reference_points of
                  Inl e \<Rightarrow> Some ([Build_query_kd_tree], Inl e)
                | Inr reference_kd_tree \<Rightarrow>
                    (case alternate reference_points query_points query_kd_tree reference_kd_tree
                            ([0], [], [Build_query_kd_tree, Build_reference_kd_tree]) of
                       None \<Rightarrow> None
                     | Some (evs, Inl e) \<Rightarrow> Some (evs, Inl e)
                     | Some (evs, Inr (reference_indices, query_indices)) \<Rightarrow>
                         Some (evs @ [Norm],
                               Inr (Alternating
                                      (euclid (rows reference_points ! last reference_indices)
                                              (rows query_points ! last query_indices))
                                      reference_indices query_indices))))
             else if method = ''exhaustive'' then
               (case query_all query_kd_tree (rows reference_points) of
                  Inl e \<Rightarrow> Some ([Build_query_kd_tree], Inl e)
                | Inr res \<Rightarrow>
                    Some ([Build_query_kd_tree, Query_query_kd_tree],
                          Inr (Exhaustive (amin (map fst res)))))
             else Some ([Build_query_kd_tree], Inl MethodError)))"

section \<open>Notions used to state the properties\<close>

text \<open>The list of the \<open>n * q\<close> distances between one point of each cloud.\<close>

definition pair_distances :: "ndarray \<Rightarrow> ndarray \<Rightarrow> real list" where
  "pair_distances a b = concat (map (\<lambda>x. map (euclid x) (rows b)) (rows a))"

text \<open>
  What a nearest-neighbour answer \<open>(distance, index)\<close> has to satisfy: the index is in
  range, the distance is that of the indexed point, no stored point is closer, and every
  point of smaller index is strictly farther.
\<close>

definition best_of :: "point \<Rightarrow> point list \<Rightarrow> real \<times> nat \<Rightarrow> bool" where
  "best_of x ps b \<longleftrightarrow>
     snd b < length ps \<and> fst b = euclid x (ps ! snd b) \<and>
     (\<forall>k < length ps. fst b \<le> euclid x (ps ! k)) \<and>
     (\<forall>k < snd b. fst b < euclid x (ps ! k))"

definition nearest_index :: "ndarray \<Rightarrow> point \<Rightarrow> nat" where
  "nearest_index a x = snd (nearest (rows a) x)"

text \<open>
  The round-trip distance of iteration \<open>i\<close>: from the reference anchor \<open>rs ! i\<close> to its
  nearest query point \<open>qs ! i\<close>.
\<close>

definition round_trip :: "ndarray \<Rightarrow> ndarray \<Rightarrow> nat list \<Rightarrow> nat list \<Rightarrow> nat \<Rightarrow> real" where
  "round_trip a b rs qs i = euclid (rows a ! (rs ! i)) (rows b ! (qs ! i))"

text \<open>
  The invariant of the loop at its head (one more reference index than query indices),
  and the shape of the two index lists when the loop has left through \<^verbatim>\<open>break\<close>.
\<close>

definition trace_inv :: "ndarray \<Rightarrow> ndarray \<Rightarrow> nat list \<Rightarrow> nat list \<Rightarrow> bool" where
  "trace_inv a b rs qs \<longleftrightarrow>
     length rs = Suc (length qs) \<and> rs ! 0 = 0 \<and>
     (\<forall>i < length rs. rs ! i < length (rows a)) \<and>
     (\<forall>i < length qs.
        qs ! i < length (rows b) \<and>
        qs ! i = nearest_index b (rows a ! (rs ! i)) \<and>
        rs ! Suc i = nearest_index a (rows b ! (qs ! i)) \<and>
        rs ! Suc i \<noteq> rs ! i)"

definition trace_fixed :: "ndarray \<Rightarrow> ndarray \<Rightarrow> nat list \<Rightarrow> nat list \<Rightarrow> bool" where
  "trace_fixed a b rs qs \<longleftrightarrow>
     rs \<noteq> [] \<and> length qs = length rs \<and> rs ! 0 = 0 \<and>
     (\<forall>i < length rs.
        rs ! i < length (rows a) \<and>
        qs ! i < length (rows b) \<and>
        qs ! i = nearest_index b (rows a ! (rs ! i))) \<and>
     (\<forall>i. Suc i < length rs \<longrightarrow>
        rs ! Suc i = nearest_index a (rows b ! (qs ! i)) \<and>
        rs ! Suc i \<noteq> rs ! i) \<and>
     nearest_index a (rows b ! last qs) = last rs"

text \<open>
  The distance from reference point \<open>r\<close> to its nearest query point, and the quantity
  that decreases with every iteration of the loop: the number of pairwise distances
  below the current round-trip distance, then the anchor index.
\<close>

definition anchor_distance :: "ndarray \<Rightarrow> ndarray \<Rightarrow> nat \<Rightarrow> real" where
  "anchor_distance a b r = euclid (rows a ! r) (rows b ! nearest_index b (rows a ! r))"

definition potential :: "ndarray \<Rightarrow> ndarray \<Rightarrow> nat \<Rightarrow> nat" where
  "potential a b r =
     card {d \<in> set (pair_distances a b). d < anchor_distance a b r} * length (rows a) + r"

text \<open>
  Convex hulls: \<open>x\<close> lies in the hull of \<open>ps\<close> when it is a convex combination of the
  points, coordinate by coordinate.
\<close>

definition in_hull :: "point list \<Rightarrow> nat \<Rightarrow> point \<Rightarrow> bool" where
  "in_hull ps m x \<longleftrightarrow>
     (\<exists>ws. length ws = length ps \<and> (\<forall>w \<in> set ws. 0 \<le> w) \<and> sum_list ws = 1 \<and>
           length x = m \<and>
           (\<forall>k < m. x ! k = sum_list (map (\<lambda>(w, p). w * p ! k) (zip ws ps))))"

definition hulls_disjoint :: "ndarray \<Rightarrow> ndarray \<Rightarrow> bool" where
  "hulls_disjoint a b \<longleftrightarrow>
     \<not> (\<exists>x. in_hull (rows a) (ncols a) x \<and> in_hull (rows b) (ncols b) x)"

section \<open>Example clouds\<close>

text \<open>
  Two planar clouds on either side of the line \<open>y = 1/2\<close>; two clouds on a line on
  which the alternation needs three round trips; an empty cloud; a planar and a spatial
  cloud of one point each.
\<close>

definition sep_reference :: ndarray where
  "sep_reference = \<lparr>ncols = 2, rows = [[0, 0], [10, 0]]\<rparr>"

definition sep_query :: ndarray where
  "sep_query = \<lparr>ncols = 2, rows = [[1, 2], [10, 1]]\<rparr>"

definition stair_reference :: ndarray where
  "stair_reference = \<lparr>ncols = 1, rows = [[0], [10], [13]]\<rparr>"

definition stair_query :: ndarray where
  "stair_query = \<lparr>ncols = 1, rows = [[7], [12]]\<rparr>"

definition empty_cloud :: ndarray where
  "empty_cloud = \<lparr>ncols = 2, rows = []\<rparr>"

definition planar_cloud :: ndarray where
  "planar_cloud = \<lparr>ncols = 2, rows = [[0, 0]]\<rparr>"

definition spatial_cloud :: ndarray where
  "spatial_cloud = \<lparr>ncols = 3, rows = [[0, 0, 0]]\<rparr>"

lemmas example_defs =
  sep_reference_def sep_query_def stair_reference_def stair_query_def
  empty_cloud_def planar_cloud_def spatial_cloud_def

lemmas eval_defs =
  find_shortest_distance_def KDTree_def alternate.simps query_def nearest_def euclid_def
  well_shaped_def

section \<open>The distance and the nearest-neighbour scan\<close>

lemma zip_sq_sym:
  "sum_list (map (\<lambda>(a, b). (a - b)\<^sup>2) (zip x y)) =
   sum_list (map (\<lambda>(a, b). (a - b)\<^sup>2) (zip y (x :: real list)))"
proof (induction x arbitrary: y)
  case Nil
  then show ?case by simp
next
  case (Cons a x)
  show ?case
  proof (cases y)
    case Nil
    then show ?thesis by simp
  next
    case (Cons b y')
    then show ?thesis using Cons.IH [of y'] by (simp add: power2_commute)
  qed
qed

lemma euclid_sym: "euclid x y = euclid y x"
  unfolding euclid_def using zip_sq_sym [of x y] by simp

lemma zip_sq_nonneg: "0 \<le> sum_list (map (\<lambda>(a, b). (a - b)\<^sup>2) (zip x (y :: real list)))"
  by (rule sum_list_nonneg) auto

lemma euclid_nonneg: "0 \<le> euclid x y"
  unfolding euclid_def using zip_sq_nonneg [of x y] by simp

lemma best_of_snoc:
  assumes "best_of x pre b"
  shows "best_of x (pre @ [p])
           (if euclid x p < fst b then (euclid x p, length pre) else b)"
proof -
  from assms have in_range: "snd b < length pre"
    and dist: "fst b = euclid x (pre ! snd b)"
    and least: "\<And>k. k < length pre \<Longrightarrow> fst b \<le> euclid x (pre ! k)"
    and first: "\<And>k. k < snd b \<Longrightarrow> fst b < euclid x (pre ! k)"
    by (auto simp: best_of_def)
  show ?thesis
  proof (cases "euclid x p < fst b")
    case True
    have "euclid x p \<le> euclid x ((pre @ [p]) ! k)" if "k < length (pre @ [p])" for k
    proof (cases "k < length pre")
      case True
      with least [of k] \<open>euclid x p < fst b\<close> show ?thesis by (simp add: nth_append)
    next
      case False
      with that have "k = length pre" by simp
      then show ?thesis by simp
    qed
    moreover have "euclid x p < euclid x ((pre @ [p]) ! k)" if "k < length pre" for k
      using least [OF that] True that by (simp add: nth_append)
    ultimately show ?thesis using True by (simp add: best_of_def)
  next
    case False
    have "fst b \<le> euclid x ((pre @ [p]) ! k)" if "k < length (pre @ [p])" for k
    proof (cases "k < length pre")
      case True
      with least [of k] show ?thesis by (simp add: nth_append)
    next
      case no: False
      with that have "k = length pre" by simp
      with False show ?thesis by simp
    qed
    moreover have "fst b < euclid x ((pre @ [p]) ! k)" if "k < snd b" for k
      using first [OF that] that in_range by (simp add: nth_append)
    moreover have "fst b = euclid x ((pre @ [p]) ! snd b)"
      using dist in_range by (simp add: nth_append)
    ultimately show ?thesis using False in_range by (simp add: best_of_def)
  qed
qed

lemma scan_best:
  "best_of x pre b \<Longrightarrow> i = length pre \<Longrightarrow> best_of x (pre @ ps) (scan x ps i b)"
proof (induction ps arbitrary: pre i b)
  case Nil
  then show ?case by simp
next
  case (Cons p ps)
  obtain bd bi where b: "b = (bd, bi)" by (cases b)
  have "best_of x (pre @ [p]) (if euclid x p < bd then (euclid x p, i) else (bd, bi))"
    using best_of_snoc [OF Cons.prems(1), of p] Cons.prems(2) b by (auto split: if_splits)
  from Cons.IH [OF this] Cons.prems(2) b show ?case
    by (cases "euclid x p < bd") simp_all
qed

lemma nearest_best: "ps \<noteq> [] \<Longrightarrow> best_of x ps (nearest ps x)"
proof -
  assume "ps \<noteq> []"
  then obtain p ps' where ps: "ps = p # ps'" by (cases ps) auto
  have "best_of x [p] (euclid x p, 0)" by (simp add: best_of_def)
  from scan_best [OF this, of 1 ps'] show ?thesis by (simp add: ps nearest_def)
qed

lemma nearest_fst_Min:
  assumes "ps \<noteq> []"
  shows "fst (nearest ps x) = Min (euclid x ` set ps)"
proof -
  note b = nearest_best [OF assms, of x, unfolded best_of_def]
  have "Min (euclid x ` set ps) = fst (nearest ps x)"
  proof (rule Min_eqI)
    show "finite (euclid x ` set ps)" by simp
    show "\<And>y. y \<in> euclid x ` set ps \<Longrightarrow> fst (nearest ps x) \<le> y"
      using b by (auto simp: in_set_conv_nth)
    show "fst (nearest ps x) \<in> euclid x ` set ps"
      using b by (metis imageI nth_mem)
  qed
  then show ?thesis by simp
qed

lemma query_all_ok:
  "\<forall>x \<in> set xs. length x = kd_m t \<Longrightarrow>
   query_all t xs = Inr (map (nearest (kd_data t)) xs)"
  by (induction xs) (simp_all add: query_def)

lemma query_all_mismatch:
  "xs \<noteq> [] \<Longrightarrow> \<forall>x \<in> set xs. length x \<noteq> kd_m t \<Longrightarrow>
   query_all t xs = Inl DimensionMismatchError"
  by (cases xs) (simp_all add: query_def)

lemma amin_Min: "ds \<noteq> [] \<Longrightarrow> amin ds = Min (set ds)"
proof (cases ds)
  case Nil
  assume "ds \<noteq> []"
  with Nil show ?thesis by simp
next
  case (Cons d ds')
  then show ?thesis using Min.set_eq_fold [of d ds'] by simp
qed

lemma Min_pair_distances:
  assumes "rows a \<noteq> []" "rows b \<noteq> []"
  shows "Min (set (map (\<lambda>x. fst (nearest (rows b) x)) (rows a))) = Min (set (pair_distances a b))"
proof (rule Min_eqI)
  let ?m = "Min (set (pair_distances a b))"
  have ne: "set (pair_distances a b) \<noteq> {}"
    using assms by (cases "rows a"; cases "rows b") (auto simp: pair_distances_def)
  have fin: "finite (set (pair_distances a b))" by simp
  show "finite (set (map (\<lambda>x. fst (nearest (rows b) x)) (rows a)))" by simp
  show "?m \<le> y" if "y \<in> set (map (\<lambda>x. fst (nearest (rows b) x)) (rows a))" for y
  proof -
    from that obtain x where x: "x \<in> set (rows a)" "y = Min (euclid x ` set (rows b))"
      by (auto simp: nearest_fst_Min [OF assms(2)])
    have "y \<in> euclid x ` set (rows b)"
      unfolding x(2) using assms(2) by (intro Min_in) auto
    with x(1) have "y \<in> set (pair_distances a b)"
      by (auto simp: pair_distances_def)
    then show ?thesis by (rule Min_le [OF fin])
  qed
  show "?m \<in> set (map (\<lambda>x. fst (nearest (rows b) x)) (rows a))"
  proof -
    have "?m \<in> set (pair_distances a b)" using ne by (intro Min_in) auto
    then obtain x y where xy: "x \<in> set (rows a)" "y \<in> set (rows b)" "?m = euclid x y"
      by (auto simp: pair_distances_def)
    have "Min (euclid x ` set (rows b)) \<le> euclid x y" using xy(2) by (intro Min_le) auto
    moreover have "Min (euclid x ` set (rows b)) \<in> euclid x ` set (rows b)"
      using assms(2) by (intro Min_in) auto
    then have "Min (euclid x ` set (rows b)) \<in> set (pair_distances a b)"
      using xy(1) by (auto simp: pair_distances_def)
    then have "?m \<le> Min (euclid x ` set (rows b))" by (rule Min_le [OF fin])
    ultimately have "?m = Min (euclid x ` set (rows b))" using xy(3) by simp
    then show ?thesis using xy(1) by (auto simp: nearest_fst_Min [OF assms(2)])
  qed
qed

lemma exhaustive_value:
  assumes "rows a \<noteq> []" "rows b \<noteq> []" "well_shaped a" "ncols a = ncols b"
  shows "find_shortest_distance a b ''exhaustive'' =
           Some ([Build_query_kd_tree, Query_query_kd_tree],
                 Inr (Exhaustive (Min (set (pair_distances a b)))))"
proof -
  have q: "query_all \<lparr>kd_data = rows b, kd_m = ncols b\<rparr> (rows a) =
             Inr (map (nearest (rows b)) (rows a))"
    using query_all_ok [of "rows a" "\<lparr>kd_data = rows b, kd_m = ncols b\<rparr>"] assms(3,4)
    by (simp add: well_shaped_def)
  have "amin (map fst (map (nearest (rows b)) (rows a))) = Min (set (pair_distances a b))"
    using amin_Min [of "map fst (map (nearest (rows b)) (rows a))"] assms(1)
      Min_pair_distances [OF assms(1,2)]
    by (simp add: comp_def)
  with q assms(1,2) show ?thesis
    by (simp add: find_shortest_distance_def KDTree_def)
qed

lemma nearest_index_less: "rows a \<noteq> [] \<Longrightarrow> nearest_index a x < length (rows a)"
  using nearest_best [of "rows a" x] by (simp add: best_of_def nearest_index_def)

lemma nearest_dist: "rows a \<noteq> [] \<Longrightarrow> fst (nearest (rows a) x) = euclid x (rows a ! nearest_index a x)"
  using nearest_best [of "rows a" x] by (simp add: best_of_def nearest_index_def)

lemma nearest_least:
  "rows a \<noteq> [] \<Longrightarrow> k < length (rows a) \<Longrightarrow>
   euclid x (rows a ! nearest_index a x) \<le> euclid x (rows a ! k)"
  using nearest_best [of "rows a" x] by (auto simp: best_of_def nearest_index_def)

lemma nearest_first:
  "rows a \<noteq> [] \<Longrightarrow> k < nearest_index a x \<Longrightarrow>
   euclid x (rows a ! nearest_index a x) < euclid x (rows a ! k)"
  using nearest_best [of "rows a" x] by (auto simp: best_of_def nearest_index_def)

lemma trace_inv_init: "rows a \<noteq> [] \<Longrightarrow> trace_inv a b [0] []"
  by (simp add: trace_inv_def)

lemma trace_inv_last: "trace_inv a b rs qs \<Longrightarrow> last rs = rs ! length qs \<and> last rs < length (rows a)"
  by (cases "rs = []") (auto simp: trace_inv_def last_conv_nth)

lemma trace_inv_step:
  assumes inv: "trace_inv a b rs qs" and ne: "rows a \<noteq> []" "rows b \<noteq> []"
    and q: "q = nearest_index b (rows a ! last rs)"
    and r: "r = nearest_index a (rows b ! q)"
    and neq: "r \<noteq> last rs"
  shows "trace_inv a b (rs @ [r]) (qs @ [q])"
proof -
  from inv have len: "length rs = Suc (length qs)" and zero: "rs ! 0 = 0"
    and rs_less: "\<And>i. i < length rs \<Longrightarrow> rs ! i < length (rows a)"
    and old: "\<And>i. i < length qs \<Longrightarrow>
        qs ! i < length (rows b) \<and>
        qs ! i = nearest_index b (rows a ! (rs ! i)) \<and>
        rs ! Suc i = nearest_index a (rows b ! (qs ! i)) \<and>
        rs ! Suc i \<noteq> rs ! i"
    by (auto simp: trace_inv_def)
  have last: "last rs = rs ! length qs" using trace_inv_last [OF inv] by simp
  have "(rs @ [r]) ! i < length (rows a)" if "i < length (rs @ [r])" for i
  proof (cases "i < length rs")
    case True
    then show ?thesis using rs_less [of i] by (simp add: nth_append)
  next
    case False
    with that have "i = length rs" by simp
    then show ?thesis using nearest_index_less [OF ne(1)] r by simp
  qed
  moreover have "(qs @ [q]) ! i < length (rows b) \<and>
        (qs @ [q]) ! i = nearest_index b (rows a ! ((rs @ [r]) ! i)) \<and>
        (rs @ [r]) ! Suc i = nearest_index a (rows b ! ((qs @ [q]) ! i)) \<and>
        (rs @ [r]) ! Suc i \<noteq> (rs @ [r]) ! i" if "i < length (qs @ [q])" for i
  proof (cases "i < length qs")
    case True
    then show ?thesis using old [of i] len by (auto simp: nth_append)
  next
    case False
    with that have i: "i = length qs" by simp
    show ?thesis using nearest_index_less [OF ne(2)] q r neq last len
      by (simp add: i nth_append)
  qed
  moreover have "(rs @ [r]) ! 0 = 0" using zero len by (simp add: nth_append)
  moreover have "length (rs @ [r]) = Suc (length (qs @ [q]))" using len by simp
  ultimately show ?thesis unfolding trace_inv_def by blast
qed

lemma trace_inv_stop:
  assumes inv: "trace_inv a b rs qs" and ne: "rows a \<noteq> []" "rows b \<noteq> []"
    and q: "q = nearest_index b (rows a ! last rs)"
    and r: "nearest_index a (rows b ! q) = last rs"
  shows "trace_fixed a b rs (qs @ [q])"
proof -
  from inv have len: "length rs = Suc (length qs)" and zero: "rs ! 0 = 0"
    and rs_less: "\<And>i. i < length rs \<Longrightarrow> rs ! i < length (rows a)"
    and old: "\<And>i. i < length qs \<Longrightarrow>
        qs ! i < length (rows b) \<and>
        qs ! i = nearest_index b (rows a ! (rs ! i)) \<and>
        rs ! Suc i = nearest_index a (rows b ! (qs ! i)) \<and>
        rs ! Suc i \<noteq> rs ! i"
    by (auto simp: trace_inv_def)
  have last: "last rs = rs ! length qs" using trace_inv_last [OF inv] by simp
  have "rs ! i < length (rows a) \<and> (qs @ [q]) ! i < length (rows b) \<and>
        (qs @ [q]) ! i = nearest_index b (rows a ! (rs ! i))" if "i < length rs" for i
  proof (cases "i < length qs")
    case True
    then show ?thesis using old [of i] rs_less [OF that] by (simp add: nth_append)
  next
    case False
    with that len have i: "i = length qs" by simp
    show ?thesis using nearest_index_less [OF ne(2)] q last rs_less [OF that]
      by (simp add: i nth_append)
  qed
  moreover have "rs ! Suc i = nearest_index a (rows b ! ((qs @ [q]) ! i)) \<and>
        rs ! Suc i \<noteq> rs ! i" if "Suc i < length rs" for i
    using old [of i] that len by (auto simp: nth_append)
  moreover have "rs \<noteq> []" using len by auto
  moreover have "length (qs @ [q]) = length rs" using len by simp
  moreover have "nearest_index a (rows b ! last (qs @ [q])) = last rs" using r by simp
  ultimately show ?thesis using zero unfolding trace_fixed_def by blast
qed

lemma alternate_trace_aux:
  assumes "alternate a b qt rt st = Some y"
  shows "kd_data qt = rows b \<and> kd_data rt = rows a \<and> rows a \<noteq> [] \<and> rows b \<noteq> [] \<longrightarrow>
   (\<forall>rs0 qs0 evs0 evs rs qs.
      st = (rs0, qs0, evs0) \<and> y = (evs, Inr (rs, qs)) \<and> trace_inv a b rs0 qs0 \<longrightarrow>
      trace_fixed a b rs qs)"
  using assms
proof (induct rule: alternate.raw_induct [rotated 1, consumes 1])
  case (1 loop a b qt rt st y)
  show ?case
  proof (intro impI allI, elim conjE)
    fix rs0 qs0 evs0 evs rs qs
    assume qt: "kd_data qt = rows b" and rt: "kd_data rt = rows a"
      and ne: "rows a \<noteq> []" "rows b \<noteq> []"
      and st: "st = (rs0, qs0, evs0)" and y: "y = (evs, Inr (rs, qs))"
      and inv: "trace_inv a b rs0 qs0"
    let ?x = "rows a ! last rs0"
    let ?q = "nearest_index b ?x"
    let ?r = "nearest_index a (rows b ! ?q)"
    let ?st' = "(rs0 @ [?r], qs0 @ [?q], evs0 @ [Query_query_kd_tree, Query_reference_kd_tree])"
    note body = "1"(2) st y
    from body qt rt have okq: "query qt ?x = Inr (nearest (rows b) ?x)"
      by (auto simp: query_def split: if_splits sum.splits prod.splits)
    from body qt rt have okr: "query rt (rows b ! ?q) = Inr (nearest (rows a) (rows b ! ?q))"
      by (auto simp: query_def nearest_index_def split: if_splits sum.splits prod.splits)
    show "trace_fixed a b rs qs"
    proof (cases "?r = last rs0")
      case True
      with body okq okr have "rs = rs0" "qs = qs0 @ [?q]"
        by (auto simp: nearest_index_def split: prod.splits)
      then show ?thesis
        using trace_inv_stop [OF inv ne refl True] by simp
    next
      case False
      with body okq okr have rec: "loop a b qt rt ?st' = Some (evs, Inr (rs, qs))"
        by (auto simp: nearest_index_def split: prod.splits)
      have "trace_inv a b (rs0 @ [?r]) (qs0 @ [?q])"
        using trace_inv_step [OF inv ne refl refl False] .
      with "1"(1) [OF rec] qt rt ne show ?thesis by blast
    qed
  qed
qed

lemma alternate_trace:
  assumes "alternate a b qt rt (rs0, qs0, evs0) = Some (evs, Inr (rs, qs))"
    and "kd_data qt = rows b" "kd_data rt = rows a" "rows a \<noteq> []" "rows b \<noteq> []"
    and "trace_inv a b rs0 qs0"
  shows "trace_fixed a b rs qs"
  using alternate_trace_aux [OF assms(1)] assms(2-) by blast

lemma pair_distances_mem:
  "i < length (rows a) \<Longrightarrow> j < length (rows b) \<Longrightarrow>
   euclid (rows a ! i) (rows b ! j) \<in> set (pair_distances a b)"
  by (auto simp: pair_distances_def intro!: bexI [of _ "rows a ! i"])

lemma anchor_distance_mem:
  "rows b \<noteq> [] \<Longrightarrow> r < length (rows a) \<Longrightarrow> anchor_distance a b r \<in> set (pair_distances a b)"
  unfolding anchor_distance_def
  by (rule pair_distances_mem) (simp_all add: nearest_index_less)

lemma round_trip_descent:
  assumes ne: "rows a \<noteq> []" "rows b \<noteq> []" and r: "r < length (rows a)"
    and q: "q = nearest_index b (rows a ! r)"
    and r': "r' = nearest_index a (rows b ! q)"
  shows "anchor_distance a b r' \<le> anchor_distance a b r"
    and "anchor_distance a b r' = anchor_distance a b r \<Longrightarrow> r' \<le> r"
proof -
  have qlt: "q < length (rows b)" using nearest_index_less [OF ne(2)] q by simp
  have 1: "anchor_distance a b r' \<le> euclid (rows a ! r') (rows b ! q)"
    unfolding anchor_distance_def using nearest_least [OF ne(2) qlt] by simp
  have 2: "euclid (rows b ! q) (rows a ! r') \<le> euclid (rows b ! q) (rows a ! r)"
    unfolding r' using nearest_least [OF ne(1) r] by simp
  have 3: "euclid (rows a ! r) (rows b ! q) = anchor_distance a b r"
    by (simp add: anchor_distance_def q)
  from 1 2 3 show le: "anchor_distance a b r' \<le> anchor_distance a b r"
    by (simp add: euclid_sym [of "rows a ! r'"] euclid_sym [of "rows a ! r"])
  assume eq: "anchor_distance a b r' = anchor_distance a b r"
  show "r' \<le> r"
  proof (rule ccontr)
    assume "\<not> r' \<le> r"
    then have "r < nearest_index a (rows b ! q)" using r' by simp
    from nearest_first [OF ne(1) this] have "euclid (rows b ! q) (rows a ! r') < euclid (rows b ! q) (rows a ! r)"
      using r' by simp
    with 1 3 eq show False
      by (simp add: euclid_sym [of "rows a ! r'"] euclid_sym [of "rows a ! r"])
  qed
qed

lemma potential_decreases:
  assumes ne: "rows a \<noteq> []" "rows b \<noteq> []" and r: "r < length (rows a)"
    and q: "q = nearest_index b (rows a ! r)"
    and r': "r' = nearest_index a (rows b ! q)"
    and neq: "r' \<noteq> r"
  shows "potential a b r' < potential a b r"
proof -
  let ?S = "\<lambda>r. {d \<in> set (pair_distances a b). d < anchor_distance a b r}"
  note le = round_trip_descent(1) [OF ne r q r']
  have r'lt: "r' < length (rows a)" using nearest_index_less [OF ne(1)] r' by simp
  show ?thesis
  proof (cases "anchor_distance a b r' = anchor_distance a b r")
    case True
    from round_trip_descent(2) [OF ne r q r' True] neq have "r' < r" by simp
    then show ?thesis by (simp add: potential_def True)
  next
    case False
    with le have lt: "anchor_distance a b r' < anchor_distance a b r" by simp
    have "anchor_distance a b r' \<in> ?S r" "anchor_distance a b r' \<notin> ?S r'"
      using lt anchor_distance_mem [OF ne(2) r'lt] by simp_all
    moreover have "?S r' \<subseteq> ?S r" using lt by auto
    ultimately have "?S r' \<subset> ?S r" by blast
    moreover have "finite (?S r)" by simp
    ultimately have "card (?S r') < card (?S r)" by (rule psubset_card_mono [rotated])
    then have "Suc (card (?S r')) \<le> card (?S r)" by simp
    then have "Suc (card (?S r')) * length (rows a) \<le> card (?S r) * length (rows a)"
      by (rule mult_le_mono1)
    with r'lt show ?thesis by (simp add: potential_def)
  qed
qed

lemma alternate_terminates:
  assumes ne: "rows a \<noteq> []" "rows b \<noteq> []"
    and ws: "well_shaped a" "well_shaped b" and dims: "ncols a = ncols b"
    and qt: "qt = \<lparr>kd_data = rows b, kd_m = ncols b\<rparr>"
    and rt: "rt = \<lparr>kd_data = rows a, kd_m = ncols a\<rparr>"
  shows "last rs < length (rows a) \<Longrightarrow>
         \<exists>evs' rs' qs'. alternate a b qt rt (rs, qs, evs) = Some (evs', Inr (rs', qs'))"
proof (induction "potential a b (last rs)" arbitrary: rs qs evs rule: less_induct)
  case less
  let ?x = "rows a ! last rs"
  let ?q = "nearest_index b ?x"
  let ?r = "nearest_index a (rows b ! ?q)"
  have "length ?x = ncols a" using ws(1) less.prems by (simp add: well_shaped_def)
  then have okq: "query qt ?x = Inr (nearest (rows b) ?x)"
    by (simp add: query_def qt dims)
  have "?q < length (rows b)" by (rule nearest_index_less [OF ne(2)])
  then have "length (rows b ! ?q) = ncols b" using ws(2) by (simp add: well_shaped_def)
  then have okr: "query rt (rows b ! ?q) = Inr (nearest (rows a) (rows b ! ?q))"
    by (simp add: query_def rt dims)
  show ?case
  proof (cases "?r = last rs")
    case True
    with okq okr show ?thesis
      by (subst alternate.simps) (auto simp: nearest_index_def split: prod.splits)
  next
    case False
    let ?st' = "(rs @ [?r], qs @ [?q], evs @ [Query_query_kd_tree, Query_reference_kd_tree])"
    have step: "alternate a b qt rt (rs, qs, evs) = alternate a b qt rt ?st'"
      using okq okr False
      by (subst alternate.simps) (auto simp: nearest_index_def split: prod.splits)
    have "potential a b (last (rs @ [?r])) < potential a b (last rs)"
      using potential_decreases [OF ne less.prems refl refl False] by simp
    moreover have "last (rs @ [?r]) < length (rows a)"
      using nearest_index_less [OF ne(1)] by simp
    ultimately show ?thesis using less.hyps [of "rs @ [?r]"] step by simp
  qed
qed

lemma length_pair_distances:
  "length (pair_distances a b) = length (rows a) * length (rows b)"
  unfolding pair_distances_def by (induction "rows a" arbitrary: a) (simp_all add: length_concat comp_def sum_list_triv)

lemma set_pair_distances_sym: "set (pair_distances a b) = set (pair_distances b a)"
proof -
  have "set (pair_distances a b) \<subseteq> set (pair_distances b a)" for a b
  proof
    fix d assume "d \<in> set (pair_distances a b)"
    then obtain x y where "x \<in> set (rows a)" "y \<in> set (rows b)" "d = euclid x y"
      by (auto simp: pair_distances_def)
    then show "d \<in> set (pair_distances b a)"
      using euclid_sym [of x y] by (auto simp: pair_distances_def)
  qed
  then show ?thesis by blast
qed




lemma new_partial:
  assumes "find_shortest_distance a b ''new'' = Some (evs, Inr (Alternating d rs qs))"
  shows "trace_fixed a b rs qs \<and> d = euclid (rows a ! last rs) (rows b ! last qs)"
proof -
  from assms have ne: "rows a \<noteq> []" "rows b \<noteq> []"
    by (auto simp: find_shortest_distance_def split: if_splits)
  let ?qt = "\<lparr>kd_data = rows b, kd_m = ncols b\<rparr>"
  let ?rt = "\<lparr>kd_data = rows a, kd_m = ncols a\<rparr>"
  let ?st = "([0], [], [Build_query_kd_tree, Build_reference_kd_tree])"
  from assms ne obtain evs' where run: "alternate a b ?qt ?rt ?st = Some (evs', Inr (rs, qs))"
    and d: "d = euclid (rows a ! last rs) (rows b ! last qs)"
    by (auto simp: find_shortest_distance_def KDTree_def split: option.splits sum.splits prod.splits)
  from alternate_trace [OF run _ _ ne trace_inv_init [OF ne(1)]] d show ?thesis by simp
qed

lemma new_total:
  assumes ne: "rows a \<noteq> []" "rows b \<noteq> []"
    and ws: "well_shaped a" "well_shaped b" and dims: "ncols a = ncols b"
  shows "\<exists>evs rs qs. find_shortest_distance a b ''new'' =
           Some (evs, Inr (Alternating (euclid (rows a ! last rs) (rows b ! last qs)) rs qs)) \<and>
           trace_fixed a b rs qs"
proof -
  let ?qt = "\<lparr>kd_data = rows b, kd_m = ncols b\<rparr>"
  let ?rt = "\<lparr>kd_data = rows a, kd_m = ncols a\<rparr>"
  let ?st = "([0], [], [Build_query_kd_tree, Build_reference_kd_tree])"
  have "last [0::nat] < length (rows a)" using ne(1) by simp
  from alternate_terminates [OF ne ws dims refl refl this]
  obtain evs rs qs where run: "alternate a b ?qt ?rt ?st = Some (evs, Inr (rs, qs))"
    by blast
  then have "find_shortest_distance a b ''new'' =
      Some (evs @ [Norm], Inr (Alternating (euclid (rows a ! last rs) (rows b ! last qs)) rs qs))"
    using ne by (simp add: find_shortest_distance_def KDTree_def)
  then show ?thesis using new_partial by blast
qed

lemma trace_fixed_anchor:
  "trace_fixed a b rs qs \<Longrightarrow> i < length rs \<Longrightarrow>
   round_trip a b rs qs i = anchor_distance a b (rs ! i)"
  by (simp add: trace_fixed_def round_trip_def anchor_distance_def)

lemma trace_fixed_descent:
  assumes ne: "rows a \<noteq> []" "rows b \<noteq> []" and tf: "trace_fixed a b rs qs"
    and i: "Suc i < length rs"
  shows "round_trip a b rs qs (Suc i) \<le> round_trip a b rs qs i"
    and "round_trip a b rs qs (Suc i) = round_trip a b rs qs i \<Longrightarrow> rs ! Suc i < rs ! i"
proof -
  from tf i have r: "rs ! i < length (rows a)"
    and q: "qs ! i = nearest_index b (rows a ! (rs ! i))"
    and r': "rs ! Suc i = nearest_index a (rows b ! (qs ! i))"
    and neq: "rs ! Suc i \<noteq> rs ! i"
    by (auto simp: trace_fixed_def)
  have a0: "round_trip a b rs qs i = anchor_distance a b (rs ! i)"
    and a1: "round_trip a b rs qs (Suc i) = anchor_distance a b (rs ! Suc i)"
    using trace_fixed_anchor [OF tf] i by simp_all
  show "round_trip a b rs qs (Suc i) \<le> round_trip a b rs qs i"
    using round_trip_descent(1) [OF ne r q r'] a0 a1 by simp
  assume "round_trip a b rs qs (Suc i) = round_trip a b rs qs i"
  then have "rs ! Suc i \<le> rs ! i"
    using round_trip_descent(2) [OF ne r q r'] a0 a1 by simp
  with neq show "rs ! Suc i < rs ! i" by simp
qed

lemma trace_fixed_pair:
  assumes "trace_fixed a b rs qs"
  shows "last rs < length (rows a) \<and> last qs < length (rows b)"
proof -
  from assms have ne: "rs \<noteq> []" "qs \<noteq> []" and len: "length qs = length rs"
    and all: "\<And>i. i < length rs \<Longrightarrow> rs ! i < length (rows a) \<and> qs ! i < length (rows b)"
    by (auto simp: trace_fixed_def)
  have "length rs - 1 < length rs" using ne by simp
  from all [OF this] ne len show ?thesis by (simp add: last_conv_nth)
qed

section \<open>The example clouds are well formed\<close>

lemma sep_matched:
  "rows sep_reference \<noteq> []" "rows sep_query \<noteq> []"
  "well_shaped sep_reference" "well_shaped sep_query"
  "ncols sep_reference = ncols sep_query"
  by (simp_all add: example_defs well_shaped_def)

lemma stair_matched:
  "rows stair_reference \<noteq> []" "rows stair_query \<noteq> []"
  "well_shaped stair_reference" "well_shaped stair_query"
  "ncols stair_reference = ncols stair_query"
  by (simp_all add: example_defs well_shaped_def)

section \<open>The exhaustive method\<close>

text \<open>
  Claim C2.  For non-empty clouds of matching dimensionality with \<open>n\<close> reference and
  \<open>q\<close> query points, the method \<^verbatim>\<open>'exhaustive'\<close> returns a single scalar, which is
  non-negative and is the minimum of the \<open>n * q\<close> Euclidean distances between one point of
  each cloud.
\<close>

theorem exhaustive_is_minimum:
  assumes "rows a \<noteq> []" "rows b \<noteq> []"
    and "well_shaped a" "well_shaped b" and "ncols a = ncols b"
  shows "\<exists>evs d. find_shortest_distance a b ''exhaustive'' = Some (evs, Inr (Exhaustive d)) \<and>
           0 \<le> d \<and>
           d = Min (set (pair_distances a b)) \<and>
           length (pair_distances a b) = length (rows a) * length (rows b)"
proof -
  let ?d = "Min (set (pair_distances a b))"
  have "set (pair_distances a b) \<noteq> {}"
    using assms(1,2) length_pair_distances [of a b] by (cases "pair_distances a b") auto
  then have "?d \<in> set (pair_distances a b)" by (intro Min_in) auto
  then have "0 \<le> ?d" using euclid_nonneg by (auto simp: pair_distances_def)
  with exhaustive_value [OF assms(1,2,3,5)] length_pair_distances [of a b]
  show ?thesis by blast
qed

text \<open>The same at the two planar example clouds.\<close>

theorem exhaustive_is_minimum_witness:
  "rows sep_reference \<noteq> [] \<and> rows sep_query \<noteq> [] \<and>
   well_shaped sep_reference \<and> well_shaped sep_query \<and>
   ncols sep_reference = ncols sep_query \<and>
   (\<exists>evs d. find_shortest_distance sep_reference sep_query ''exhaustive'' =
               Some (evs, Inr (Exhaustive d)) \<and>
            0 \<le> d \<and>
            d = Min (set (pair_distances sep_reference sep_query)) \<and>
            length (pair_distances sep_reference sep_query) =
              length (rows sep_reference) * length (rows sep_query))"
  using exhaustive_is_minimum [OF sep_matched] sep_matched by blast

text \<open>
  Claim C5.  The exhaustive method is symmetric: for non-empty clouds of matching
  dimensionality, exchanging the reference and the query cloud gives the same value.
\<close>

theorem exhaustive_symmetric:
  assumes "rows a \<noteq> []" "rows b \<noteq> []"
    and "well_shaped a" "well_shaped b" and "ncols a = ncols b"
  shows "\<exists>evs d. find_shortest_distance a b ''exhaustive'' = Some (evs, Inr (Exhaustive d)) \<and>
                 find_shortest_distance b a ''exhaustive'' = Some (evs, Inr (Exhaustive d))"
  using exhaustive_value [OF assms(1,2,3,5)] exhaustive_value [OF assms(2,1,4) assms(5) [symmetric]]
    set_pair_distances_sym [of a b]
  by simp

text \<open>The two planar example clouds, in both orders.\<close>

theorem exhaustive_symmetric_witness:
  "rows sep_reference \<noteq> [] \<and> rows sep_query \<noteq> [] \<and>
   well_shaped sep_reference \<and> well_shaped sep_query \<and>
   ncols sep_reference = ncols sep_query \<and>
   (\<exists>evs d. find_shortest_distance sep_reference sep_query ''exhaustive'' =
               Some (evs, Inr (Exhaustive d)) \<and>
            find_shortest_distance sep_query sep_reference ''exhaustive'' =
               Some (evs, Inr (Exhaustive d)))"
  using exhaustive_symmetric [OF sep_matched] sep_matched by blast

section \<open>Rejected inputs\<close>

text \<open>
  Claim C6.  When either cloud has no points, the function raises the empty-input error
  whatever the method; the log of operations is empty, so no index has been built and no
  distance evaluated, and the outcome carries no partial result.
\<close>

theorem empty_input_rejected_first:
  assumes "rows a = [] \<or> rows b = []"
  shows "find_shortest_distance a b method = Some ([], Inl EmptyInputError)"
  using assms by (auto simp: find_shortest_distance_def)

text \<open>An empty reference cloud with the alternating method, an empty query cloud with the exhaustive one.\<close>

theorem empty_input_rejected_first_witness:
  "(rows empty_cloud = [] \<or> rows sep_query = []) \<and>
   find_shortest_distance empty_cloud sep_query ''new'' = Some ([], Inl EmptyInputError) \<and>
   find_shortest_distance sep_reference empty_cloud ''exhaustive'' = Some ([], Inl EmptyInputError)"
proof -
  have h: "rows empty_cloud = [] \<or> rows sep_query = []"
    and h': "rows sep_reference = [] \<or> rows empty_cloud = []"
    by (simp_all add: empty_cloud_def)
  show ?thesis
    using h empty_input_rejected_first [OF h, of "''new''"]
      empty_input_rejected_first [OF h', of "''exhaustive''"] by simp
qed

section \<open>The alternating method\<close>

text \<open>
  Claim C3.  For non-empty clouds of matching dimensionality (with disjoint convex hulls
  or not) the alternating method returns its two index lists, and along them the
  round-trip distance between the reference anchor and its nearest query point never
  increases from one iteration to the next.
\<close>

theorem round_trips_non_increasing:
  assumes "rows a \<noteq> []" "rows b \<noteq> []"
    and "well_shaped a" "well_shaped b" and "ncols a = ncols b"
  shows "\<exists>evs d rs qs.
           find_shortest_distance a b ''new'' = Some (evs, Inr (Alternating d rs qs)) \<and>
           length qs = length rs \<and>
           (\<forall>i. Suc i < length rs \<longrightarrow>
              round_trip a b rs qs (Suc i) \<le> round_trip a b rs qs i)"
proof -
  from new_total [OF assms] obtain evs rs qs where
    run: "find_shortest_distance a b ''new'' =
            Some (evs, Inr (Alternating (euclid (rows a ! last rs) (rows b ! last qs)) rs qs))"
    and tf: "trace_fixed a b rs qs" by blast
  have "length qs = length rs" using tf by (simp add: trace_fixed_def)
  moreover have "\<forall>i. Suc i < length rs \<longrightarrow>
      round_trip a b rs qs (Suc i) \<le> round_trip a b rs qs i"
    using trace_fixed_descent(1) [OF assms(1,2) tf] by blast
  ultimately show ?thesis using run by blast
qed

text \<open>The two clouds on a line, on which the loop runs three times.\<close>

theorem round_trips_non_increasing_witness:
  "rows stair_reference \<noteq> [] \<and> rows stair_query \<noteq> [] \<and>
   well_shaped stair_reference \<and> well_shaped stair_query \<and>
   ncols stair_reference = ncols stair_query \<and>
   (\<exists>evs d rs qs.
      find_shortest_distance stair_reference stair_query ''new'' =
        Some (evs, Inr (Alternating d rs qs)) \<and>
      length qs = length rs \<and>
      (\<forall>i. Suc i < length rs \<longrightarrow>
         round_trip stair_reference stair_query rs qs (Suc i)
           \<le> round_trip stair_reference stair_query rs qs i))"
  using round_trips_non_increasing [OF stair_matched] stair_matched by blast

text \<open>
  Claim C4.  Whenever the alternating method returns \<open>(d, rs, qs)\<close>: the trace starts at
  reference index 0; every query index is the nearest query point of the reference anchor
  of its iteration; at every iteration but the last the nearest reference point of the
  query anchor differs from the reference anchor and becomes the next anchor; at the last
  iteration it equals the anchor; and \<open>d\<close> is the Euclidean distance between the last
  traced reference point and the last traced query point.
\<close>

theorem alternation_stops_at_fixed_point:
  assumes "find_shortest_distance a b ''new'' = Some (evs, Inr (Alternating d rs qs))"
  shows "rs \<noteq> [] \<and> rs ! 0 = 0 \<and> length qs = length rs \<and>
         (\<forall>i < length rs.
            rs ! i < length (rows a) \<and> qs ! i < length (rows b) \<and>
            qs ! i = nearest_index b (rows a ! (rs ! i))) \<and>
         (\<forall>i. Suc i < length rs \<longrightarrow>
            nearest_index a (rows b ! (qs ! i)) \<noteq> rs ! i \<and>
            rs ! Suc i = nearest_index a (rows b ! (qs ! i))) \<and>
         nearest_index a (rows b ! last qs) = last rs \<and>
         d = euclid (rows a ! last rs) (rows b ! last qs)"
proof -
  from new_partial [OF assms] have tf: "trace_fixed a b rs qs"
    and d: "d = euclid (rows a ! last rs) (rows b ! last qs)" by simp_all
  from tf have "\<forall>i. Suc i < length rs \<longrightarrow>
            nearest_index a (rows b ! (qs ! i)) \<noteq> rs ! i \<and>
            rs ! Suc i = nearest_index a (rows b ! (qs ! i))"
    by (auto simp: trace_fixed_def)
  with tf d show ?thesis unfolding trace_fixed_def by blast
qed

text \<open>The run on the two clouds on a line.\<close>

lemma stair_new:
  "find_shortest_distance stair_reference stair_query ''new'' =
     Some ([Build_query_kd_tree, Build_reference_kd_tree,
            Query_query_kd_tree, Query_reference_kd_tree,
            Query_query_kd_tree, Query_reference_kd_tree,
            Query_query_kd_tree, Query_reference_kd_tree, Norm],
           Inr (Alternating 1 [0, 1, 2] [0, 1, 1]))"
  by (simp add: example_defs eval_defs)

text \<open>The fixed point of that run is the pair of indices \<open>(2, 1)\<close>, at distance 1.\<close>

theorem alternation_stops_at_fixed_point_witness:
  "find_shortest_distance stair_reference stair_query ''new'' =
     Some ([Build_query_kd_tree, Build_reference_kd_tree,
            Query_query_kd_tree, Query_reference_kd_tree,
            Query_query_kd_tree, Query_reference_kd_tree,
            Query_query_kd_tree, Query_reference_kd_tree, Norm],
           Inr (Alternating 1 [0, 1, 2] [0, 1, 1])) \<and>
   [0, 1, 2 :: nat] ! 0 = 0 \<and>
   nearest_index stair_reference (rows stair_query ! last [0, 1, 1 :: nat]) = last [0, 1, 2 :: nat] \<and>
   (1 :: real) = euclid (rows stair_reference ! last [0, 1, 2 :: nat])
                        (rows stair_query ! last [0, 1, 1 :: nat])"
  using alternation_stops_at_fixed_point [OF stair_new] stair_new by simp

text \<open>
  Claim C9.  With exact nearest-neighbour queries that break ties by lowest index, the
  unbounded loop ends on every pair of non-empty clouds of matching dimensionality: the
  method returns.  From one iteration to the next the round-trip distance either drops,
  or stays the same while the reference index drops; so the potential, a natural number,
  strictly decreases.
\<close>

theorem alternation_terminates:
  assumes "rows a \<noteq> []" "rows b \<noteq> []"
    and "well_shaped a" "well_shaped b" and "ncols a = ncols b"
  shows "\<exists>evs d rs qs.
           find_shortest_distance a b ''new'' = Some (evs, Inr (Alternating d rs qs)) \<and>
           (\<forall>i. Suc i < length rs \<longrightarrow>
              round_trip a b rs qs (Suc i) < round_trip a b rs qs i \<or>
              round_trip a b rs qs (Suc i) = round_trip a b rs qs i \<and> rs ! Suc i < rs ! i) \<and>
           (\<forall>i. Suc i < length rs \<longrightarrow> potential a b (rs ! Suc i) < potential a b (rs ! i))"
proof -
  from new_total [OF assms] obtain evs rs qs where
    run: "find_shortest_distance a b ''new'' =
            Some (evs, Inr (Alternating (euclid (rows a ! last rs) (rows b ! last qs)) rs qs))"
    and tf: "trace_fixed a b rs qs" by blast
  have "round_trip a b rs qs (Suc i) < round_trip a b rs qs i \<or>
        round_trip a b rs qs (Suc i) = round_trip a b rs qs i \<and> rs ! Suc i < rs ! i"
    if "Suc i < length rs" for i
    using trace_fixed_descent [OF assms(1,2) tf that] by fastforce
  moreover have "potential a b (rs ! Suc i) < potential a b (rs ! i)"
    if i: "Suc i < length rs" for i
  proof -
    from tf i have "rs ! i < length (rows a)"
      and "qs ! i = nearest_index b (rows a ! (rs ! i))"
      and "rs ! Suc i = nearest_index a (rows b ! (qs ! i))"
      and "rs ! Suc i \<noteq> rs ! i"
      by (auto simp: trace_fixed_def)
    then show ?thesis by (rule potential_decreases [OF assms(1,2)])
  qed
  ultimately show ?thesis using run by blast
qed

text \<open>The same on the two clouds on a line.\<close>

theorem alternation_terminates_witness:
  "rows stair_reference \<noteq> [] \<and> rows stair_query \<noteq> [] \<and>
   well_shaped stair_reference \<and> well_shaped stair_query \<and>
   ncols stair_reference = ncols stair_query \<and>
   (\<exists>evs d rs qs.
      find_shortest_distance stair_reference stair_query ''new'' =
        Some (evs, Inr (Alternating d rs qs)) \<and>
      (\<forall>i. Suc i < length rs \<longrightarrow>
         round_trip stair_reference stair_query rs qs (Suc i)
           < round_trip stair_reference stair_query rs qs i \<or>
         round_trip stair_reference stair_query rs qs (Suc i)
           = round_trip stair_reference stair_query rs qs i \<and> rs ! Suc i < rs ! i) \<and>
      (\<forall>i. Suc i < length rs \<longrightarrow>
         potential stair_reference stair_query (rs ! Suc i)
           < potential stair_reference stair_query (rs ! i)))"
  using alternation_terminates [OF stair_matched] stair_matched by blast

text \<open>
  Claim C10.  On non-empty clouds of matching dimensionality both methods return, the
  alternating result is the distance of an actual pair (reference point, query point),
  and it is never below the minimum returned by the exhaustive method.
\<close>

theorem alternating_not_below_exhaustive:
  assumes "rows a \<noteq> []" "rows b \<noteq> []"
    and "well_shaped a" "well_shaped b" and "ncols a = ncols b"
  shows "\<exists>evs d rs qs evs' d'.
           find_shortest_distance a b ''new'' = Some (evs, Inr (Alternating d rs qs)) \<and>
           find_shortest_distance a b ''exhaustive'' = Some (evs', Inr (Exhaustive d')) \<and>
           last rs < length (rows a) \<and> last qs < length (rows b) \<and>
           d = euclid (rows a ! last rs) (rows b ! last qs) \<and>
           d' \<le> d"
proof -
  from new_total [OF assms] obtain evs rs qs where
    run: "find_shortest_distance a b ''new'' =
            Some (evs, Inr (Alternating (euclid (rows a ! last rs) (rows b ! last qs)) rs qs))"
    and tf: "trace_fixed a b rs qs" by blast
  note in_range = trace_fixed_pair [OF tf]
  then have "euclid (rows a ! last rs) (rows b ! last qs) \<in> set (pair_distances a b)"
    by (simp add: pair_distances_mem)
  then have "Min (set (pair_distances a b)) \<le> euclid (rows a ! last rs) (rows b ! last qs)"
    by (intro Min_le) auto
  with run in_range exhaustive_value [OF assms(1,2,3,5)] show ?thesis by blast
qed

text \<open>The two planar clouds.\<close>

theorem alternating_not_below_exhaustive_witness:
  "rows sep_reference \<noteq> [] \<and> rows sep_query \<noteq> [] \<and>
   well_shaped sep_reference \<and> well_shaped sep_query \<and>
   ncols sep_reference = ncols sep_query \<and>
   (\<exists>evs d rs qs evs' d'.
      find_shortest_distance sep_reference sep_query ''new'' =
        Some (evs, Inr (Alternating d rs qs)) \<and>
      find_shortest_distance sep_reference sep_query ''exhaustive'' =
        Some (evs', Inr (Exhaustive d')) \<and>
      last rs < length (rows sep_reference) \<and> last qs < length (rows sep_query) \<and>
      d = euclid (rows sep_reference ! last rs) (rows sep_query ! last qs) \<and>
      d' \<le> d)"
  using alternating_not_below_exhaustive [OF sep_matched] sep_matched by blast

section \<open>Clouds of different dimensionality\<close>

text \<open>
  Claim C7 asks for the dimension error to be raised before any index is constructed.
  A planar reference cloud and a spatial query cloud show otherwise: with either method
  the error arrives after the query index (and for the alternating method the reference
  index too) has been built.
\<close>

theorem dimension_mismatch_counterexample:
  "rows planar_cloud \<noteq> [] \<and> rows spatial_cloud \<noteq> [] \<and>
   ncols planar_cloud \<noteq> ncols spatial_cloud \<and>
   find_shortest_distance planar_cloud spatial_cloud ''new'' =
     Some ([Build_query_kd_tree, Build_reference_kd_tree], Inl DimensionMismatchError) \<and>
   find_shortest_distance planar_cloud spatial_cloud ''exhaustive'' =
     Some ([Build_query_kd_tree], Inl DimensionMismatchError) \<and>
   find_shortest_distance planar_cloud spatial_cloud ''new''
     \<noteq> Some ([], Inl DimensionMismatchError) \<and>
   find_shortest_distance planar_cloud spatial_cloud ''exhaustive''
     \<noteq> Some ([], Inl DimensionMismatchError)"
  by (simp add: example_defs eval_defs)

text \<open>
  Claim C7, amended.  For non-empty clouds that disagree on dimensionality the function
  has no check of its own: it fails with the dimension error of the first
  nearest-neighbour query, after the query index and, for the alternating method, the
  reference index have been built; no distance is returned.
\<close>

theorem dimension_mismatch_after_construction:
  assumes "rows a \<noteq> []" "rows b \<noteq> []"
    and "well_shaped a" and "ncols a \<noteq> ncols b"
  shows "find_shortest_distance a b ''new'' =
           Some ([Build_query_kd_tree, Build_reference_kd_tree], Inl DimensionMismatchError) \<and>
         find_shortest_distance a b ''exhaustive'' =
           Some ([Build_query_kd_tree], Inl DimensionMismatchError)"
proof -
  let ?qt = "\<lparr>kd_data = rows b, kd_m = ncols b\<rparr>"
  have all: "\<forall>x \<in> set (rows a). length x \<noteq> kd_m ?qt"
    using assms(3,4) by (simp add: well_shaped_def)
  have "rows a ! 0 \<in> set (rows a)" using assms(1) by simp
  with all have "query ?qt (rows a ! 0) = Inl DimensionMismatchError"
    by (simp add: query_def)
  then have "find_shortest_distance a b ''new'' =
           Some ([Build_query_kd_tree, Build_reference_kd_tree], Inl DimensionMismatchError)"
    using assms(1,2) by (simp add: find_shortest_distance_def KDTree_def alternate.simps)
  moreover have "find_shortest_distance a b ''exhaustive'' =
           Some ([Build_query_kd_tree], Inl DimensionMismatchError)"
    using query_all_mismatch [OF assms(1) all] assms(1,2)
    by (simp add: find_shortest_distance_def KDTree_def)
  ultimately show ?thesis by simp
qed

text \<open>The planar and the spatial cloud.\<close>

theorem dimension_mismatch_after_construction_witness:
  "rows planar_cloud \<noteq> [] \<and> rows spatial_cloud \<noteq> [] \<and>
   well_shaped planar_cloud \<and> ncols planar_cloud \<noteq> ncols spatial_cloud \<and>
   find_shortest_distance planar_cloud spatial_cloud ''new'' =
     Some ([Build_query_kd_tree, Build_reference_kd_tree], Inl DimensionMismatchError) \<and>
   find_shortest_distance planar_cloud spatial_cloud ''exhaustive'' =
     Some ([Build_query_kd_tree], Inl DimensionMismatchError)"
proof -
  have h: "rows planar_cloud \<noteq> []" "rows spatial_cloud \<noteq> []"
    "well_shaped planar_cloud" "ncols planar_cloud \<noteq> ncols spatial_cloud"
    by (simp_all add: example_defs well_shaped_def)
  show ?thesis using dimension_mismatch_after_construction [OF h] h by simp
qed

section \<open>Agreement of the two methods\<close>

text \<open>
  The hulls of the two planar clouds are disjoint: every convex combination of the
  reference points has second coordinate 0, every one of the query points at least 1.
\<close>

lemma sep_hulls_disjoint: "hulls_disjoint sep_reference sep_query"
  unfolding hulls_disjoint_def
proof
  assume "\<exists>x. in_hull (rows sep_reference) (ncols sep_reference) x \<and>
              in_hull (rows sep_query) (ncols sep_query) x"
  then obtain x where hr: "in_hull [[0, 0], [10, 0]] 2 x" and hq: "in_hull [[1, 2], [10, 1]] 2 x"
    by (auto simp: example_defs)
  from hr obtain ws :: "real list" where ws: "length ws = length [[0, 0], [10, 0 :: real]]"
    and xr: "\<forall>k<2. x ! k = sum_list (map (\<lambda>(w, p). w * p ! k) (zip ws [[0, 0], [10, 0]]))"
    unfolding in_hull_def by blast
  from hq obtain vs :: "real list" where vs: "length vs = length [[1, 2], [10, 1 :: real]]"
    and pos: "\<forall>v \<in> set vs. 0 \<le> v" and one: "sum_list vs = 1"
    and xq: "\<forall>k<2. x ! k = sum_list (map (\<lambda>(w, p). w * p ! k) (zip vs [[1, 2], [10, 1]]))"
    unfolding in_hull_def by blast
  from ws obtain w1 w2 where "ws = [w1, w2]"
    by (auto simp: length_Suc_conv)
  with xr have x0: "x ! 1 = 0" by simp
  from vs obtain v1 v2 where "vs = [v1, v2]"
    by (auto simp: length_Suc_conv)
  with pos one xq have "0 \<le> v1" "0 \<le> v2" "v1 + v2 = 1" "x ! 1 = v1 * 2 + v2"
    by simp_all
  with x0 show False by simp
qed

text \<open>
  Claim C1 states that on clouds with disjoint convex hulls the alternating method returns
  the minimum found by the exhaustive method.  On the two planar clouds, whose hulls are
  disjoint, the alternation started at index 0 is at a fixed point at once and returns
  \<open>sqrt 5\<close>, while the exhaustive method returns 1.
\<close>

theorem alternating_misses_minimum:
  "rows sep_reference \<noteq> [] \<and> rows sep_query \<noteq> [] \<and>
   well_shaped sep_reference \<and> well_shaped sep_query \<and>
   ncols sep_reference = ncols sep_query \<and>
   hulls_disjoint sep_reference sep_query \<and>
   find_shortest_distance sep_reference sep_query ''new'' =
     Some ([Build_query_kd_tree, Build_reference_kd_tree,
            Query_query_kd_tree, Query_reference_kd_tree, Norm],
           Inr (Alternating (sqrt 5) [0] [0])) \<and>
   find_shortest_distance sep_reference sep_query ''exhaustive'' =
     Some ([Build_query_kd_tree, Query_query_kd_tree], Inr (Exhaustive 1)) \<and>
   sqrt 5 \<noteq> 1"
proof -
  have "find_shortest_distance sep_reference sep_query ''new'' =
     Some ([Build_query_kd_tree, Build_reference_kd_tree,
            Query_query_kd_tree, Query_reference_kd_tree, Norm],
           Inr (Alternating (sqrt 5) [0] [0]))"
    by (simp add: example_defs eval_defs)
  moreover have "find_shortest_distance sep_reference sep_query ''exhaustive'' =
     Some ([Build_query_kd_tree, Query_query_kd_tree], Inr (Exhaustive 1))"
    by (simp add: example_defs eval_defs)
  moreover have "sqrt 5 \<noteq> 1" by simp
  ultimately show ?thesis using sep_matched sep_hulls_disjoint by blast
qed

text \<open>
  So two clouds with disjoint hulls exist on which both methods return and the two
  distances differ.
\<close>

theorem alternating_misses_minimum_witness:
  "\<exists>evs d rs qs evs' d'.
     hulls_disjoint sep_reference sep_query \<and>
     find_shortest_distance sep_reference sep_query ''new'' =
       Some (evs, Inr (Alternating d rs qs)) \<and>
     find_shortest_distance sep_reference sep_query ''exhaustive'' =
       Some (evs', Inr (Exhaustive d')) \<and>
     d \<noteq> d'"
  using alternating_misses_minimum by blast

section \<open>No bound on the number of iterations\<close>





end
